theory Spec2Isabelle
  imports Main "HOL-Library.Word"
begin

unbundle bit_operations_syntax

section \<open>SpookyOTP: one-time passcodes after RFC 4226 and RFC 6238\<close>

text \<open>
  A shallow embedding of \<^verbatim>\<open>spookyotp/otp.py\<close>. Python integers are \<open>int\<close>,
  byte arrays are lists of 8-bit words, a \<^verbatim>\<open>str\<close> is a \<open>string\<close> whose
  characters stand for the code points 0 to 255, and every exception is a value
  \<open>Inl e\<close> of a sum type. Memory limits of the interpreter are not modelled.
\<close>

subsection \<open>Errors\<close>

text \<open>
  The names follow the error kinds of the specification. In the source
  \<open>InvalidCounter\<close>, \<open>InvalidArgument\<close>, \<open>InvalidCodeFormat\<close> and \<open>InvalidFormatSpec\<close>
  are all \<^verbatim>\<open>ValueError\<close>; \<open>InvalidFormatSpec\<close> is the one \<^verbatim>\<open>str.format\<close>
  raises on a negative width. \<open>IndexError\<close> is \<^verbatim>\<open>hashed[-1]\<close> on an empty digest,
  \<open>ZeroDivisionError\<close> is \<^verbatim>\<open>//\<close> with period 0, and \<open>TruncationError\<close> stands for the
  byte codec called outside its four-byte domain.
\<close>

datatype error =
    InvalidCounter
  | InvalidArgument
  | InvalidCodeFormat
  | InvalidFormatSpec
  | IndexError
  | ZeroDivisionError
  | TruncationError

type_synonym byte = "8 word"

text \<open>
  \<^verbatim>\<open>hmac.new(secret, counter, algorithm).digest()\<close> belongs to the standard library.
  The resolved algorithm is therefore a parameter: the keyed digest as a function of
  the secret and the message.
\<close>

type_synonym algorithm = "byte list \<Rightarrow> byte list \<Rightarrow> byte list"

subsection \<open>Python primitives\<close>

text \<open>\<^verbatim>\<open>int.bit_length()\<close>: the number of bits of the absolute value.\<close>

fun nat_bit_length :: "nat \<Rightarrow> nat" where
  "nat_bit_length n = (if n = 0 then 0 else Suc (nat_bit_length (n div 2)))"

declare nat_bit_length.simps [simp del]

definition bit_length :: "int \<Rightarrow> nat" where
  "bit_length n = nat_bit_length (nat \<bar>n\<bar>)"

text \<open>\<^verbatim>\<open>str(n)\<close> and \<^verbatim>\<open>'{:0w}'.format(n)\<close> for a non-negative \<open>n\<close>.\<close>

definition digit_char :: "nat \<Rightarrow> char" where
  "digit_char d = char_of (48 + d)"

fun decimal :: "nat \<Rightarrow> string" where
  "decimal n = (if n < 10 then [digit_char n] else decimal (n div 10) @ [digit_char (n mod 10)])"

declare decimal.simps [simp del]

definition zero_pad :: "nat \<Rightarrow> string \<Rightarrow> string" where
  "zero_pad w s = replicate (w - length s) (CHR ''0'') @ s"

text \<open>\<^verbatim>\<open>s[-n:]\<close> for \<open>n \<ge> 0\<close>: the last \<open>n\<close> items, and the whole of \<open>s\<close> when \<open>n = 0\<close>.\<close>

definition py_suffix :: "nat \<Rightarrow> 'a list \<Rightarrow> 'a list" where
  "py_suffix n s = (if n = 0 then s else drop (length s - n) s)"

definition py_isdigit :: "char \<Rightarrow> bool" where
  "py_isdigit c = (48 \<le> (of_char c :: nat) \<and> (of_char c :: nat) \<le> 57)"

text \<open>
  The white space \<^verbatim>\<open>int(s, 10)\<close> strips: the ASCII characters 9 to 13 and 32, and
  the two Latin-1 spaces 133 and 160, which CPython maps to a blank first.
\<close>

definition py_isspace :: "char \<Rightarrow> bool" where
  "py_isspace c = ((of_char c :: nat) \<in> {9, 10, 11, 12, 13, 32, 133, 160})"

definition int_body_char :: "char \<Rightarrow> bool" where
  "int_body_char c = (py_isdigit c \<or> c = CHR ''_'')"

fun no_double_underscore :: "string \<Rightarrow> bool" where
  "no_double_underscore (a # b # cs) =
     (\<not> (a = CHR ''_'' \<and> b = CHR ''_'') \<and> no_double_underscore (b # cs))"
| "no_double_underscore cs = True"

definition strip_sign :: "string \<Rightarrow> string" where
  "strip_sign s = (case s of [] \<Rightarrow> [] | c # cs \<Rightarrow> if c = CHR ''+'' \<or> c = CHR ''-'' then cs else s)"

text \<open>CPython's default bound on the digits of an integer literal (since 3.11).\<close>

definition int_max_str_digits :: nat where
  "int_max_str_digits = 4300"

text \<open>
  Whether \<^verbatim>\<open>int(s, 10)\<close> returns (rather than raising \<^verbatim>\<open>ValueError\<close>): white space,
  an optional sign, a run of digits with single underscores between them, white
  space, and no more than \<open>int_max_str_digits\<close> digits.
\<close>

definition py_int10_ok :: "string \<Rightarrow> bool" where
  "py_int10_ok s =
     (let s1 = strip_sign (dropWhile py_isspace s);
          body = takeWhile int_body_char s1;
          rest = dropWhile int_body_char s1
      in (case body of [] \<Rightarrow> False
          | c # cs \<Rightarrow> c \<noteq> CHR ''_'' \<and> last body \<noteq> CHR ''_'' \<and> no_double_underscore body)
         \<and> length (filter py_isdigit body) \<le> int_max_str_digits
         \<and> list_all py_isspace rest)"

subsection \<open>Byte codec\<close>

text \<open>
  Modelled from the spec: \<^verbatim>\<open>spookyotp/byte_util.py\<close> (\<^verbatim>\<open>int_to_bytearray\<close>) is not among
  the sources. Section 4.1: an unsigned 64-bit counter becomes an 8-byte big-endian
  buffer, and the conversion fails if the bit length of the value exceeds 64. An
  argument outside the unsigned 64-bit type, negative or longer than 64 bits, is the
  counter error here.
\<close>

definition int_to_bytearray :: "int \<Rightarrow> error + byte list" where
  "int_to_bytearray n =
     (if n < 0 \<or> bit_length n > 64 then Inl InvalidCounter
      else Inr (map (\<lambda>k. word_of_int (n div 256 ^ k)) (rev [0..<8])))"

text \<open>
  Modelled from the spec: \<^verbatim>\<open>spookyotp/byte_util.py\<close> (\<^verbatim>\<open>bytes_to_31_bit_int\<close>) is not
  among the sources. Section 4.1: four bytes are read as a big-endian unsigned 32-bit
  value and the most significant bit is cleared (mask \<open>0x7FFFFFFF\<close>). The
  specification types the argument as four bytes; any other length is an error here,
  so that no result below rests on a value the specification does not give.
\<close>

definition be_word32 :: "byte list \<Rightarrow> 32 word" where
  "be_word32 buf = foldl (\<lambda>acc b. push_bit 8 acc OR ucast b) 0 buf"

definition bytes_to_31_bit_int :: "byte list \<Rightarrow> error + nat" where
  "bytes_to_31_bit_int buf =
     (if length buf \<noteq> 4 then Inl TruncationError
      else Inr (unat (be_word32 buf AND 0x7FFFFFFF)))"

subsection \<open>The comparator and the core algorithm\<close>

text \<open>
  \<^verbatim>\<open>constant_time_compare\<close>: the flag starts as the length test and is and-ed with
  the equality of every zipped pair.
\<close>

definition constant_time_compare :: "'a list \<Rightarrow> 'a list \<Rightarrow> bool" where
  "constant_time_compare str_a str_b =
     foldl (\<lambda>are_equal (a, b). are_equal \<and> a = b) (length str_a = length str_b) (zip str_a str_b)"

text \<open>\<^verbatim>\<open>OTPBase._get_otp\<close>, the truncation of RFC 4226.\<close>

definition OTPBase_get_otp :: "byte list \<Rightarrow> int \<Rightarrow> int \<Rightarrow> algorithm \<Rightarrow> error + string" where
  "OTPBase_get_otp secret counter_int n_digits algorithm =
     (if bit_length counter_int > 64 then Inl InvalidCounter
      else case int_to_bytearray counter_int of
        Inl e \<Rightarrow> Inl e
      | Inr counter \<Rightarrow>
          (let hashed = algorithm secret counter in
           if hashed = [] then Inl IndexError
           else
             let idx = unat (last hashed AND 0x0f);
                 truncated = take 4 (drop idx hashed)
             in case bytes_to_31_bit_int truncated of
                  Inl e \<Rightarrow> Inl e
                | Inr as_int \<Rightarrow>
                    if n_digits < 0 then Inl InvalidFormatSpec
                    else Inr (py_suffix (nat n_digits) (zero_pad (nat n_digits) (decimal as_int)))))"

text \<open>
  \<^verbatim>\<open>OTPBase._compare\<close>: both codes go through \<^verbatim>\<open>int(code, 10)\<close>, whose
  \<^verbatim>\<open>ValueError\<close> is raised again, and then through the comparator.
\<close>

definition OTPBase_compare :: "string \<Rightarrow> string \<Rightarrow> error + bool" where
  "OTPBase_compare code_a code_b =
     (if \<not> py_int10_ok code_a then Inl InvalidCodeFormat
      else if \<not> py_int10_ok code_b then Inl InvalidCodeFormat
      else Inr (constant_time_compare code_a code_b))"

subsection \<open>List comprehensions\<close>

text \<open>
  \<^verbatim>\<open>[f(x) for x in xs]\<close> evaluates \<open>f\<close> from left to right and stops at the
  first exception. \<open>comprehension\<close> is the pure form, \<open>comprehension_st\<close> threads the
  state that \<open>f\<close> may change.
\<close>

fun comprehension :: "('a \<Rightarrow> error + 'b) \<Rightarrow> 'a list \<Rightarrow> error + 'b list" where
  "comprehension f [] = Inr []"
| "comprehension f (x # xs) =
     (case f x of
        Inl e \<Rightarrow> Inl e
      | Inr y \<Rightarrow> (case comprehension f xs of Inl e \<Rightarrow> Inl e | Inr ys \<Rightarrow> Inr (y # ys)))"

fun comprehension_st :: "('s \<Rightarrow> 'a \<Rightarrow> (error + 'b) \<times> 's) \<Rightarrow> 's \<Rightarrow> 'a list \<Rightarrow> (error + 'b list) \<times> 's" where
  "comprehension_st f s [] = (Inr [], s)"
| "comprehension_st f s (x # xs) =
     (case f s x of
        (Inl e, s') \<Rightarrow> (Inl e, s')
      | (Inr y, s') \<Rightarrow>
          (case comprehension_st f s' xs of
             (Inl e, s'') \<Rightarrow> (Inl e, s'')
           | (Inr ys, s'') \<Rightarrow> (Inr (y # ys), s'')))"

text \<open>\<^verbatim>\<open>xs.index(x)\<close>: the first position of \<open>x\<close>, \<open>None\<close> where Python raises \<^verbatim>\<open>ValueError\<close>.\<close>

fun index_of :: "'a \<Rightarrow> 'a list \<Rightarrow> nat option" where
  "index_of x [] = None"
| "index_of x (y # ys) = (if y = x then Some 0 else map_option Suc (index_of x ys))"

subsection \<open>The engines\<close>

text \<open>
  The fields that code generation and verification read. \<open>otp_secret\<close>, \<open>otp_n_digits\<close>
  and \<open>otp_algorithm\<close> are \<^verbatim>\<open>_secret\<close>, \<^verbatim>\<open>_n_digits\<close> and \<^verbatim>\<open>_algorithm\<close> of
  \<^verbatim>\<open>OTPBase._setup\<close>; issuer, account and algorithm name only feed the URI.
\<close>

record OTPBase =
  otp_secret :: "byte list"
  otp_n_digits :: int
  otp_algorithm :: algorithm

record HOTP = OTPBase +
  counter :: int

text \<open>
  The time source is a capability outside the engine. It is modelled as the sequence
  of its readings, \<open>current_timestamp self k\<close> being what the call number \<open>k\<close> returns,
  and every operation takes and returns the number of readings made so far. The
  readings are integers, as the constructor's documentation asks of a time source.
\<close>

record TOTP = OTPBase +
  period :: int
  current_timestamp :: "nat \<Rightarrow> int"

text \<open>\<^verbatim>\<open>TOTP.get_otp(timestamp=None)\<close>.\<close>

definition TOTP_get_otp :: "TOTP \<Rightarrow> nat \<Rightarrow> int option \<Rightarrow> (error + string) \<times> nat" where
  "TOTP_get_otp self reads timestamp_arg =
     (let (timestamp, reads') =
            (case timestamp_arg of
               None \<Rightarrow> (current_timestamp self reads, Suc reads)
             | Some t \<Rightarrow> (t, reads))
      in if period self = 0 then (Inl ZeroDivisionError, reads')
         else (OTPBase_get_otp (otp_secret self) (timestamp div period self)
                 (otp_n_digits self) (otp_algorithm self), reads'))"

text \<open>\<^verbatim>\<open>TOTP.compare(code, max_step_difference=1)\<close>.\<close>

definition TOTP_compare :: "TOTP \<Rightarrow> nat \<Rightarrow> string \<Rightarrow> int \<Rightarrow> (error + bool) \<times> nat" where
  "TOTP_compare self reads code max_step_difference =
     (if max_step_difference < 0 then (Inl InvalidArgument, reads)
      else
        let timestamp = current_timestamp self reads;
            reads1 = Suc reads
        in case comprehension_st
                  (\<lambda>r i. TOTP_get_otp self r (Some (timestamp + i * period self)))
                  reads1 [- max_step_difference .. max_step_difference] of
             (Inl e, reads2) \<Rightarrow> (Inl e, reads2)
           | (Inr valid_codes, reads2) \<Rightarrow>
               (case comprehension (\<lambda>valid. OTPBase_compare code valid) valid_codes of
                  Inl e \<Rightarrow> (Inl e, reads2)
                | Inr results \<Rightarrow> (Inr (list_ex (\<lambda>b. b) results), reads2)))"

text \<open>\<^verbatim>\<open>HOTP.get_otp(counter=None, auto_increment=True)\<close>.\<close>

definition HOTP_get_otp :: "HOTP \<Rightarrow> int option \<Rightarrow> bool \<Rightarrow> (error + string) \<times> HOTP" where
  "HOTP_get_otp self counter_arg auto_increment =
     (case counter_arg of
        None \<Rightarrow>
          (let c = counter self;
               self' = (if auto_increment then self\<lparr>counter := counter self + 1\<rparr> else self)
           in (OTPBase_get_otp (otp_secret self') c (otp_n_digits self') (otp_algorithm self'), self'))
      | Some c \<Rightarrow>
          (OTPBase_get_otp (otp_secret self) c (otp_n_digits self) (otp_algorithm self), self))"

text \<open>
  \<^verbatim>\<open>HOTP.compare(code, look_ahead=2)\<close>. The candidate codes are generated outside the
  \<^verbatim>\<open>try\<close> block, so their errors propagate; the \<^verbatim>\<open>ValueError\<close> of \<^verbatim>\<open>_compare\<close>
  and the one of \<^verbatim>\<open>is_valid.index(True)\<close> are both caught and answered with
  \<^verbatim>\<open>False\<close>. The index found always lies within \<open>counters\<close>; the test before
  \<^verbatim>\<open>counters[correct_idx]\<close> only keeps the list access total.
\<close>

definition HOTP_compare :: "HOTP \<Rightarrow> string \<Rightarrow> int \<Rightarrow> (error + bool) \<times> HOTP" where
  "HOTP_compare self code look_ahead =
     (if look_ahead < 0 then (Inl InvalidArgument, self)
      else
        let counters = map (\<lambda>i. counter self + i) [0 .. look_ahead]
        in case comprehension_st (\<lambda>s c. HOTP_get_otp s (Some c) True) self counters of
             (Inl e, self1) \<Rightarrow> (Inl e, self1)
           | (Inr valid_codes, self1) \<Rightarrow>
               (case comprehension (\<lambda>valid. OTPBase_compare code valid) valid_codes of
                  Inl e \<Rightarrow> (Inr False, self1)
                | Inr is_valid \<Rightarrow>
                    (case index_of True is_valid of
                       None \<Rightarrow> (Inr False, self1)
                     | Some correct_idx \<Rightarrow>
                         if correct_idx < length counters
                         then (Inr True, self1\<lparr>counter := counters ! correct_idx + 1\<rparr>)
                         else (Inl IndexError, self1))))"

subsection \<open>A concrete instance\<close>

text \<open>
  The concrete instances below need a digest to run. \<open>demo_digest\<close> is a stand-in of
  20 bytes that depends on the secret and on the last byte of the message; nothing
  general is proved from it.
\<close>

definition demo_digest :: algorithm where
  "demo_digest key msg =
     map (\<lambda>i. word_of_nat (7 * i + 13 * unat (last msg) + length key + 3)) [0..<20]"

definition demo_hotp :: "int \<Rightarrow> HOTP" where
  "demo_hotp c =
     \<lparr>otp_secret = [1, 2, 3], otp_n_digits = 6, otp_algorithm = demo_digest, counter = c\<rparr>"

definition demo_totp :: "int \<Rightarrow> TOTP" where
  "demo_totp now =
     \<lparr>otp_secret = [1, 2, 3], otp_n_digits = 6, otp_algorithm = demo_digest,
      period = 30, current_timestamp = (\<lambda>k. now)\<rparr>"

text \<open>
  A second instance with the digests of the standard library. \<open>hmac_sha1_sample\<close> holds
  the values of HMAC-SHA1 (RFC 2104 over RFC 3174) under the secret of RFC 4226,
  \<^verbatim>\<open>12345678901234567890\<close>, at the 8-byte messages of the counters 57766335 to
  57766338. These are the four messages that \<open>rfc_totp\<close> sends; the table is zero
  elsewhere.
\<close>

definition rfc4226_secret :: "byte list" where
  "rfc4226_secret =
     [0x31, 0x32, 0x33, 0x34, 0x35, 0x36, 0x37, 0x38, 0x39, 0x30,
      0x31, 0x32, 0x33, 0x34, 0x35, 0x36, 0x37, 0x38, 0x39, 0x30]"

definition hmac_sha1_sample :: algorithm where
  "hmac_sha1_sample key msg =
     (if key = rfc4226_secret \<and> msg = [0, 0, 0, 0, 0x03, 0x71, 0x71, 0xbf]
      then [0xee, 0x8a, 0x3d, 0xf0, 0xe1, 0x26, 0x41, 0xd4, 0xf3, 0x9b,
            0x5e, 0xf4, 0x56, 0x59, 0xb9, 0x3a, 0x9e, 0x9c, 0xb7, 0xd7]
      else if key = rfc4226_secret \<and> msg = [0, 0, 0, 0, 0x03, 0x71, 0x71, 0xc0]
      then [0xaf, 0xfc, 0xf2, 0x09, 0xe5, 0x5e, 0x8f, 0x03, 0x66, 0x9b,
            0x15, 0x77, 0xba, 0xb4, 0x9b, 0x1a, 0xca, 0x8a, 0x7a, 0x32]
      else if key = rfc4226_secret \<and> msg = [0, 0, 0, 0, 0x03, 0x71, 0x71, 0xc1]
      then [0xc7, 0xcf, 0x79, 0x5a, 0x2d, 0x8d, 0x80, 0x49, 0xb7, 0x29,
            0x72, 0x68, 0x98, 0x20, 0xdd, 0xc0, 0x2c, 0x72, 0xa8, 0xf8]
      else if key = rfc4226_secret \<and> msg = [0, 0, 0, 0, 0x03, 0x71, 0x71, 0xc2]
      then [0xde, 0x56, 0x9d, 0x41, 0x0e, 0x15, 0x7e, 0xee, 0x6f, 0xb2,
            0x91, 0x5f, 0xfa, 0x9a, 0x56, 0x0f, 0x3f, 0x52, 0xef, 0x1c]
      else replicate 20 0)"

definition rfc_totp :: TOTP where
  "rfc_totp =
     \<lparr>otp_secret = rfc4226_secret, otp_n_digits = 6, otp_algorithm = hmac_sha1_sample,
      period = 30, current_timestamp = (\<lambda>k. 1732990110)\<rparr>"

section \<open>Properties\<close>

subsection \<open>Python primitives\<close>

lemma nat_bit_length_le: "nat_bit_length n \<le> k \<longleftrightarrow> n < 2 ^ k"
proof (induction n arbitrary: k rule: nat_bit_length.induct)
  case (1 n)
  show ?case
  proof (cases "n = 0")
    case True
    then show ?thesis by (simp add: nat_bit_length.simps)
  next
    case False
    show ?thesis
    proof (cases k)
      case 0
      with False show ?thesis by (simp add: nat_bit_length.simps [of n])
    next
      case (Suc j)
      have "nat_bit_length (n div 2) \<le> j \<longleftrightarrow> n div 2 < 2 ^ j"
        using "1.IH" [OF False] .
      moreover have "n div 2 < 2 ^ j \<longleftrightarrow> n < 2 ^ Suc j"
        by auto
      ultimately show ?thesis
        using False Suc by (simp add: nat_bit_length.simps [of n])
    qed
  qed
qed

lemma bit_length_gt_64: "bit_length n > 64 \<longleftrightarrow> 2 ^ 64 \<le> \<bar>n\<bar>"
proof -
  have "bit_length n > 64 \<longleftrightarrow> \<not> nat \<bar>n\<bar> < 2 ^ 64"
    unfolding bit_length_def using nat_bit_length_le [of "nat \<bar>n\<bar>" 64] by auto
  also have "\<dots> \<longleftrightarrow> 2 ^ 64 \<le> \<bar>n\<bar>"
    by (simp add: nat_less_iff not_less)
  finally show ?thesis .
qed

lemma py_isdigit_digit_char: "d < 10 \<Longrightarrow> py_isdigit (digit_char d)"
  by (simp add: py_isdigit_def digit_char_def)

lemma decimal_digits: "list_all py_isdigit (decimal n)"
proof (induction n rule: decimal.induct)
  case (1 n)
  then show ?case
    by (subst decimal.simps) (simp add: py_isdigit_digit_char)
qed

lemma decimal_nonempty: "decimal n \<noteq> []"
  by (subst decimal.simps) simp

subsection \<open>The comparator\<close>

lemma ctc_foldl:
  "foldl (\<lambda>are_equal (a, b). are_equal \<and> a = b) acc (zip xs ys) =
     (acc \<and> take (length ys) xs = take (length xs) ys)"
proof (induction xs arbitrary: ys acc)
  case Nil
  then show ?case by simp
next
  case (Cons x xs)
  then show ?case by (cases ys) auto
qed

lemma constant_time_compare_eq: "constant_time_compare a b = (a = b)"
  unfolding constant_time_compare_def ctc_foldl by auto

subsection \<open>Codec, digits and integer literals\<close>

lemma nibble_bound: "unat ((b::byte) AND 0x0f) < 16"
proof -
  have "unat (b AND 0x0f) \<le> unat (0x0f :: byte)"
    by (rule word_and_le1 [THEN word_le_nat_alt [THEN iffD1]])
  then show ?thesis by simp
qed

lemma bytes_to_31_bit_int_bound: "bytes_to_31_bit_int buf = Inr v \<Longrightarrow> v < 2 ^ 31"
proof -
  assume a: "bytes_to_31_bit_int buf = Inr v"
  have "unat (be_word32 buf AND 0x7FFFFFFF) \<le> unat (0x7FFFFFFF :: 32 word)"
    by (rule word_and_le1 [THEN word_le_nat_alt [THEN iffD1]])
  with a show ?thesis
    by (auto simp: bytes_to_31_bit_int_def split: if_splits)
qed

lemma py_isdigit_not_space: "py_isdigit c \<Longrightarrow> \<not> py_isspace c"
  by (auto simp: py_isdigit_def py_isspace_def)

lemma py_isdigit_not_special:
  "py_isdigit c \<Longrightarrow> c \<noteq> CHR ''_'' \<and> c \<noteq> CHR ''+'' \<and> c \<noteq> CHR ''-''"
  by (auto simp: py_isdigit_def)

lemma no_double_underscore_digits: "list_all py_isdigit s \<Longrightarrow> no_double_underscore s"
  by (induction s rule: no_double_underscore.induct) (auto dest: py_isdigit_not_special)

lemma digits_int10_ok:
  assumes "list_all py_isdigit s" "s \<noteq> []" "length s \<le> int_max_str_digits"
  shows "py_int10_ok s"
proof -
  obtain c cs where s: "s = c # cs" using assms(2) by (cases s) auto
  have c: "py_isdigit c" using assms(1) s by simp
  have 1: "dropWhile py_isspace s = s"
    using c s by (simp add: py_isdigit_not_space)
  have 2: "strip_sign s = s"
    using c s py_isdigit_not_special [of c] by (simp add: strip_sign_def)
  have all: "\<forall>x\<in>set s. int_body_char x"
    using assms(1) by (auto simp: list_all_iff int_body_char_def)
  have 3: "takeWhile int_body_char s = s"
    using all by (simp add: takeWhile_eq_all_conv)
  have 4: "dropWhile int_body_char s = []"
    using all by simp
  have 5: "last s \<noteq> CHR ''_''"
    using assms(1,2) py_isdigit_not_special [of "last s"] by (auto simp: list_all_iff)
  have 6: "filter py_isdigit s = s"
    using assms(1) by (simp add: list_all_iff)
  show ?thesis
    unfolding py_int10_ok_def 1 2 3 4 Let_def
    using 5 6 assms(1,3) c py_isdigit_not_special [of c] no_double_underscore_digits [of s]
    by (simp add: s)
qed

lemma int10_ok_chars:
  assumes "py_int10_ok s" "c \<in> set s"
  shows "py_isdigit c \<or> py_isspace c \<or> c = CHR ''_'' \<or> c = CHR ''+'' \<or> c = CHR ''-''"
proof (rule ccontr)
  assume n: "\<not> ?thesis"
  define s0 where "s0 = dropWhile py_isspace s"
  define s1 where "s1 = strip_sign s0"
  have "set s = set (takeWhile py_isspace s) \<union> set s0"
    unfolding s0_def by (metis set_append takeWhile_dropWhile_id)
  moreover have "c \<notin> set (takeWhile py_isspace s)"
    using n by (auto dest: set_takeWhileD)
  ultimately have c0: "c \<in> set s0" using assms(2) by auto
  have c1: "c \<in> set s1"
    using c0 n unfolding s1_def strip_sign_def by (cases s0) (auto split: if_splits)
  have "set s1 = set (takeWhile int_body_char s1) \<union> set (dropWhile int_body_char s1)"
    by (metis set_append takeWhile_dropWhile_id)
  moreover have "c \<notin> set (takeWhile int_body_char s1)"
    using n by (auto dest!: set_takeWhileD simp: int_body_char_def)
  ultimately have "c \<in> set (dropWhile int_body_char s1)" using c1 by auto
  moreover have "list_all py_isspace (dropWhile int_body_char s1)"
    using assms(1) unfolding py_int10_ok_def s1_def s0_def Let_def by simp
  ultimately show False using n by (auto simp: list_all_iff)
qed

lemma int10_ok_nonempty: "\<not> py_int10_ok []"
  by (simp add: py_int10_ok_def strip_sign_def)

lemma py_suffix_zero_pad_length: "0 < n \<Longrightarrow> length (py_suffix n (zero_pad n s)) = n"
  by (auto simp: py_suffix_def zero_pad_def)

lemma py_suffix_zero_pad_digits:
  "list_all py_isdigit s \<Longrightarrow> list_all py_isdigit (py_suffix n (zero_pad n s))"
  by (auto simp: py_suffix_def zero_pad_def list_all_iff py_isdigit_def dest: in_set_dropD)

subsection \<open>The core algorithm\<close>

lemma bit_length_le_64: "0 \<le> n \<Longrightarrow> n < 2 ^ 64 \<Longrightarrow> \<not> bit_length n > 64"
  by (simp add: bit_length_gt_64)

lemma OTPBase_get_otp_guard:
  "OTPBase_get_otp secret c n alg = Inl InvalidCounter \<longleftrightarrow> c < 0 \<or> 2 ^ 64 \<le> c"
  by (auto simp: OTPBase_get_otp_def int_to_bytearray_def bytes_to_31_bit_int_def
      bit_length_gt_64 Let_def split: sum.splits if_splits)

lemma OTPBase_get_otp_value:
  assumes c: "0 \<le> counter_int" "counter_int < 2 ^ 64"
    and n: "0 \<le> n_digits"
    and d: "\<And>key msg. 19 \<le> length (algorithm key msg)"
  shows "\<exists>as_int < 2 ^ 31.
           OTPBase_get_otp secret counter_int n_digits algorithm =
             Inr (py_suffix (nat n_digits) (zero_pad (nat n_digits) (decimal as_int)))"
proof -
  have bl: "\<not> bit_length counter_int > 64"
    using c by (rule bit_length_le_64)
  with c obtain cbytes where cb: "int_to_bytearray counter_int = Inr cbytes"
    by (simp add: int_to_bytearray_def)
  define hashed where "hashed = algorithm secret cbytes"
  have len: "19 \<le> length hashed"
    unfolding hashed_def by (rule d)
  then have ne: "hashed \<noteq> []" by auto
  define idx where "idx = unat (last hashed AND 0x0f)"
  have "idx < 16" unfolding idx_def by (rule nibble_bound)
  with len have "length (take 4 (drop idx hashed)) = 4" by simp
  then obtain as_int where t: "bytes_to_31_bit_int (take 4 (drop idx hashed)) = Inr as_int"
    by (simp add: bytes_to_31_bit_int_def)
  then have "as_int < 2 ^ 31" by (rule bytes_to_31_bit_int_bound)
  moreover have "OTPBase_get_otp secret counter_int n_digits algorithm =
      Inr (py_suffix (nat n_digits) (zero_pad (nat n_digits) (decimal as_int)))"
    using bl cb ne t n
    by (simp add: OTPBase_get_otp_def Let_def hashed_def [symmetric] idx_def [symmetric])
  ultimately show ?thesis by blast
qed

lemma decimal_length_31: "n < 2 ^ 31 \<Longrightarrow> length (decimal n) \<le> 10"
proof -
  have step: "length (decimal m) \<le> Suc (length (decimal (m div 10)))" for m
    by (subst decimal.simps) simp
  have base: "m < 10 \<Longrightarrow> length (decimal m) = 1" for m
    by (subst decimal.simps) simp
  assume "n < 2 ^ 31"
  then have "n div 10 div 10 div 10 div 10 div 10 div 10 div 10 div 10 div 10 < 10"
    by simp
  from base [OF this] show ?thesis
    using step [of n] step [of "n div 10"] step [of "n div 10 div 10"]
      step [of "n div 10 div 10 div 10"] step [of "n div 10 div 10 div 10 div 10"]
      step [of "n div 10 div 10 div 10 div 10 div 10"]
      step [of "n div 10 div 10 div 10 div 10 div 10 div 10"]
      step [of "n div 10 div 10 div 10 div 10 div 10 div 10 div 10"]
      step [of "n div 10 div 10 div 10 div 10 div 10 div 10 div 10 div 10"]
    by linarith
qed

text \<open>A generated code is a literal that \<^verbatim>\<open>int(code, 10)\<close> accepts.\<close>

lemma OTPBase_get_otp_int10_ok:
  assumes "0 \<le> counter_int" "counter_int < 2 ^ 64"
    and n: "0 \<le> n_digits" "n_digits \<le> 4300"
    and "\<And>key msg. 19 \<le> length (algorithm key msg)"
  shows "\<exists>code. OTPBase_get_otp secret counter_int n_digits algorithm = Inr code \<and> py_int10_ok code"
proof -
  obtain as_int where a: "as_int < 2 ^ 31"
    and r: "OTPBase_get_otp secret counter_int n_digits algorithm =
      Inr (py_suffix (nat n_digits) (zero_pad (nat n_digits) (decimal as_int)))"
    using OTPBase_get_otp_value [where algorithm = algorithm and secret = secret, OF assms(1,2,3,5)]
    by blast
  define code where "code = py_suffix (nat n_digits) (zero_pad (nat n_digits) (decimal as_int))"
  have dig: "list_all py_isdigit code"
    unfolding code_def by (rule py_suffix_zero_pad_digits) (rule decimal_digits)
  have "code \<noteq> [] \<and> length code \<le> int_max_str_digits"
  proof (cases "n_digits = 0")
    case True
    then show ?thesis
      using decimal_nonempty [of as_int] decimal_length_31 [OF a]
      by (simp add: code_def py_suffix_def zero_pad_def int_max_str_digits_def)
  next
    case False
    with n have "0 < nat n_digits" by simp
    from py_suffix_zero_pad_length [OF this, of "decimal as_int"] this n
    show ?thesis by (auto simp: code_def int_max_str_digits_def)
  qed
  with dig have "py_int10_ok code" by (simp add: digits_int10_ok)
  with r show ?thesis unfolding code_def by blast
qed

text \<open>So is every code that \<^verbatim>\<open>_get_otp\<close> returns, if the digit count is at most 4300.\<close>

lemma OTPBase_get_otp_Inr_int10_ok:
  assumes r: "OTPBase_get_otp secret counter_int n_digits algorithm = Inr code"
    and n: "n_digits \<le> 4300"
  shows "py_int10_ok code"
proof -
  from r obtain as_int where n0: "0 \<le> n_digits"
    and a: "as_int < 2 ^ 31"
    and code: "code = py_suffix (nat n_digits) (zero_pad (nat n_digits) (decimal as_int))"
    by (auto simp: OTPBase_get_otp_def Let_def split: if_splits sum.splits
        dest: bytes_to_31_bit_int_bound)
  have dig: "list_all py_isdigit code"
    unfolding code by (rule py_suffix_zero_pad_digits) (rule decimal_digits)
  have "code \<noteq> [] \<and> length code \<le> int_max_str_digits"
  proof (cases "n_digits = 0")
    case True
    then show ?thesis
      using decimal_nonempty [of as_int] decimal_length_31 [OF a]
      by (simp add: code py_suffix_def zero_pad_def int_max_str_digits_def)
  next
    case False
    with n0 have "0 < nat n_digits" by simp
    from py_suffix_zero_pad_length [OF this, of "decimal as_int"] this n
    show ?thesis by (auto simp: code int_max_str_digits_def)
  qed
  with dig show ?thesis by (simp add: digits_int10_ok)
qed

subsection \<open>Evaluating the concrete instance\<close>

lemma digit_char_simps:
  "digit_char 0 = CHR ''0''" "digit_char (Suc 0) = CHR ''1''" "digit_char 2 = CHR ''2''"
  "digit_char 3 = CHR ''3''" "digit_char 4 = CHR ''4''" "digit_char 5 = CHR ''5''"
  "digit_char 6 = CHR ''6''" "digit_char 7 = CHR ''7''" "digit_char 8 = CHR ''8''"
  "digit_char 9 = CHR ''9''"
  by (simp_all add: digit_char_def char_of_eq_iff)

lemmas otp_eval =
  OTPBase_get_otp_def int_to_bytearray_def bit_length_gt_64 upt_rec demo_digest_def
  bytes_to_31_bit_int_def be_word32_def decimal.simps digit_char_simps py_suffix_def zero_pad_def

lemmas int10_eval =
  py_int10_ok_def strip_sign_def py_isspace_def int_body_char_def py_isdigit_def
  int_max_str_digits_def

lemma demo_digest_length: "19 \<le> length (demo_digest key msg)"
  by (simp add: demo_digest_def)

lemma demo_codes:
  "OTPBase_get_otp [1, 2, 3] 0 6 demo_digest = Inr ''432104''"
  "OTPBase_get_otp [1, 2, 3] 1 6 demo_digest = Inr ''688032''"
  "OTPBase_get_otp [1, 2, 3] 2 6 demo_digest = Inr ''943960''"
  "OTPBase_get_otp [1, 2, 3] 3 6 demo_digest = Inr ''199888''"
  "OTPBase_get_otp [1, 2, 3] 4 6 demo_digest = Inr ''389176''"
  "OTPBase_get_otp [1, 2, 3] 5 6 demo_digest = Inr ''645104''"
  by (simp_all add: otp_eval)

lemma demo_hotp_fields:
  "otp_secret (demo_hotp c) = [1, 2, 3]" "otp_n_digits (demo_hotp c) = 6"
  "otp_algorithm (demo_hotp c) = demo_digest" "counter (demo_hotp c) = c"
  "demo_hotp c\<lparr>counter := c'\<rparr> = demo_hotp c'"
  by (simp_all add: demo_hotp_def)

lemma demo_totp_fields:
  "otp_secret (demo_totp now) = [1, 2, 3]" "otp_n_digits (demo_totp now) = 6"
  "otp_algorithm (demo_totp now) = demo_digest" "period (demo_totp now) = 30"
  "current_timestamp (demo_totp now) r = now"
  by (simp_all add: demo_totp_def)

lemma upto_0_2: "{0..2::int} = {0, 1, 2}"
  by auto

lemma upto_3_5: "{3..5::int} = {3, 4, 5}"
  by auto

lemma upto_m1_1: "{- 1 .. 1::int} = {- 1, 0, 1}"
  by auto

lemma rfc_totp_fields:
  "otp_secret rfc_totp = rfc4226_secret" "otp_n_digits rfc_totp = 6"
  "otp_algorithm rfc_totp = hmac_sha1_sample" "period rfc_totp = 30"
  "current_timestamp rfc_totp r = 1732990110"
  by (simp_all add: rfc_totp_def)

lemma rfc_codes:
  "OTPBase_get_otp rfc4226_secret 57766335 6 hmac_sha1_sample = Inr ''251166''"
  "OTPBase_get_otp rfc4226_secret 57766336 6 hmac_sha1_sample = Inr ''251166''"
  "OTPBase_get_otp rfc4226_secret 57766337 6 hmac_sha1_sample = Inr ''463144''"
  "OTPBase_get_otp rfc4226_secret 57766338 6 hmac_sha1_sample = Inr ''934927''"
  by (simp_all add: OTPBase_get_otp_def int_to_bytearray_def bit_length_gt_64 upt_rec
      hmac_sha1_sample_def bytes_to_31_bit_int_def be_word32_def decimal.simps digit_char_simps
      py_suffix_def zero_pad_def)

subsection \<open>List comprehensions\<close>

lemma comprehension_map:
  "(\<And>x. x \<in> set xs \<Longrightarrow> f x = Inr (g x)) \<Longrightarrow> comprehension f xs = Inr (map g xs)"
  by (induction xs) simp_all

lemma comprehension_map_arg: "comprehension f (map h xs) = comprehension (\<lambda>x. f (h x)) xs"
  by (induction xs) (simp_all split: sum.splits)

lemma comprehension_first_Inl:
  "xs \<noteq> [] \<Longrightarrow> (\<And>x. x \<in> set xs \<Longrightarrow> f x = Inl e) \<Longrightarrow> comprehension f xs = Inl e"
  by (cases xs) simp_all

lemma comprehension_st_pure:
  "(\<And>s x. snd (f s x) = s) \<Longrightarrow>
     comprehension_st f s xs = (comprehension (\<lambda>x. fst (f s x)) xs, s)"
proof (induction xs)
  case Nil
  then show ?case by simp
next
  case (Cons x xs)
  have fx: "f s x = (fst (f s x), s)"
    using Cons.prems [of s x] by (cases "f s x") simp
  show ?case
    using Cons.IH [OF Cons.prems]
    by (subst comprehension_st.simps, subst fx) (simp split: sum.splits)
qed

lemma index_of_None: "index_of x xs = None \<longleftrightarrow> x \<notin> set xs"
  by (induction xs) auto

lemma index_of_map_first:
  "k < length xs \<Longrightarrow> P (xs ! k) \<Longrightarrow> (\<And>j. j < k \<Longrightarrow> \<not> P (xs ! j)) \<Longrightarrow>
     index_of True (map P xs) = Some k"
proof (induction xs arbitrary: k)
  case Nil
  then show ?case by simp
next
  case (Cons x xs)
  show ?case
  proof (cases k)
    case 0
    with Cons.prems show ?thesis by simp
  next
    case (Suc m)
    have "\<not> P x" using Cons.prems(3) [of 0] Suc by simp
    moreover have "index_of True (map P xs) = Some m"
    proof (rule Cons.IH)
      show "m < length xs" using Cons.prems(1) Suc by simp
      show "P (xs ! m)" using Cons.prems(2) Suc by simp
      show "\<not> P (xs ! j)" if "j < m" for j
        using Cons.prems(3) [of "Suc j"] that Suc by simp
    qed
    ultimately show ?thesis using Suc by simp
  qed
qed

subsection \<open>The HOTP engine\<close>

lemma HOTP_get_otp_explicit:
  "HOTP_get_otp self (Some c) b =
     (OTPBase_get_otp (otp_secret self) c (otp_n_digits self) (otp_algorithm self), self)"
  by (simp add: HOTP_get_otp_def)

lemma HOTP_get_otp_current:
  "HOTP_get_otp self None False =
     (OTPBase_get_otp (otp_secret self) (counter self) (otp_n_digits self) (otp_algorithm self), self)"
  "HOTP_get_otp self None True =
     (OTPBase_get_otp (otp_secret self) (counter self) (otp_n_digits self) (otp_algorithm self),
      self\<lparr>counter := counter self + 1\<rparr>)"
  by (simp_all add: HOTP_get_otp_def Let_def)

lemma OTPBase_compare_ok:
  "py_int10_ok a \<Longrightarrow> py_int10_ok b \<Longrightarrow> OTPBase_compare a b = Inr (a = b)"
  by (simp add: OTPBase_compare_def constant_time_compare_eq)

lemma OTPBase_compare_bad: "\<not> py_int10_ok a \<Longrightarrow> OTPBase_compare a b = Inl InvalidCodeFormat"
  by (simp add: OTPBase_compare_def)

text \<open>The candidates of \<^verbatim>\<open>HOTP.compare\<close> never change the engine.\<close>

lemma HOTP_candidates:
  "comprehension_st (\<lambda>s c. HOTP_get_otp s (Some c) True) self cs =
     (comprehension (\<lambda>c. OTPBase_get_otp (otp_secret self) c (otp_n_digits self) (otp_algorithm self)) cs,
      self)"
  by (subst comprehension_st_pure) (simp_all add: HOTP_get_otp_explicit)

lemma HOTP_compare_unchanged:
  "fst (HOTP_compare self code look_ahead) \<noteq> Inr True \<Longrightarrow>
     snd (HOTP_compare self code look_ahead) = self"
  by (auto simp: HOTP_compare_def HOTP_candidates Let_def split: if_splits sum.splits option.splits)

lemma HOTP_compare_match:
  assumes la: "0 \<le> look_ahead"
    and gen: "\<And>j. 0 \<le> j \<Longrightarrow> j \<le> look_ahead \<Longrightarrow>
        OTPBase_get_otp (otp_secret self) (counter self + j) (otp_n_digits self) (otp_algorithm self) = Inr (g j)
        \<and> py_int10_ok (g j)"
    and i: "0 \<le> i" "i \<le> look_ahead" "g i = code"
    and first: "\<And>j. 0 \<le> j \<Longrightarrow> j < i \<Longrightarrow> g j \<noteq> code"
  shows "HOTP_compare self code look_ahead = (Inr True, self\<lparr>counter := counter self + i + 1\<rparr>)"
proof -
  define counters where "counters = map (\<lambda>j. counter self + j) [0 .. look_ahead]"
  define core where "core = (\<lambda>c. OTPBase_get_otp (otp_secret self) c (otp_n_digits self) (otp_algorithm self))"
  define codes where "codes = map g [0 .. look_ahead]"
  have c1: "comprehension core counters = Inr codes"
  proof -
    have "comprehension (\<lambda>j. core (counter self + j)) [0 .. look_ahead] = Inr (map g [0 .. look_ahead])"
      by (rule comprehension_map) (use gen in \<open>auto simp: core_def\<close>)
    then show ?thesis by (simp add: counters_def codes_def comprehension_map_arg)
  qed
  have ok: "py_int10_ok code" using gen [OF i(1,2)] i(3) by simp
  have c2: "comprehension (\<lambda>valid. OTPBase_compare code valid) codes = Inr (map (\<lambda>v. code = v) codes)"
    by (rule comprehension_map) (use gen ok in \<open>auto simp: codes_def OTPBase_compare_ok\<close>)
  have len: "length [0 .. look_ahead] = nat (look_ahead + 1)" by simp
  have k: "nat i < length codes" using i la by (simp add: codes_def)
  have c3: "index_of True (map (\<lambda>v. code = v) codes) = Some (nat i)"
  proof (rule index_of_map_first [OF k])
    show "code = codes ! nat i" using i la by (simp add: codes_def)
    show "code \<noteq> codes ! j" if "j < nat i" for j
    proof -
      have "int j < i" using that by linarith
      then have "g (int j) \<noteq> code" using first [of "int j"] by simp
      moreover have "codes ! j = g (int j)" using that i la by (simp add: codes_def)
      ultimately show ?thesis by simp
    qed
  qed
  have c4: "nat i < length counters" "counters ! nat i = counter self + i"
    using i la by (simp_all add: counters_def)
  show ?thesis
    using la c1 c2 c3 c4
    by (simp add: HOTP_compare_def HOTP_candidates Let_def counters_def [symmetric] core_def [symmetric])
qed

lemma HOTP_compare_no_match_general:
  assumes la: "0 \<le> look_ahead"
    and gen: "\<And>j. 0 \<le> j \<Longrightarrow> j \<le> look_ahead \<Longrightarrow>
        OTPBase_get_otp (otp_secret self) (counter self + j) (otp_n_digits self) (otp_algorithm self) = Inr (g j)"
    and none: "\<And>j. 0 \<le> j \<Longrightarrow> j \<le> look_ahead \<Longrightarrow> g j \<noteq> code"
  shows "HOTP_compare self code look_ahead = (Inr False, self)"
proof -
  define counters where "counters = map (\<lambda>j. counter self + j) [0 .. look_ahead]"
  define core where "core = (\<lambda>c. OTPBase_get_otp (otp_secret self) c (otp_n_digits self) (otp_algorithm self))"
  define codes where "codes = map g [0 .. look_ahead]"
  have c1: "comprehension core counters = Inr codes"
  proof -
    have "comprehension (\<lambda>j. core (counter self + j)) [0 .. look_ahead] = Inr (map g [0 .. look_ahead])"
      by (rule comprehension_map) (use gen in \<open>auto simp: core_def\<close>)
    then show ?thesis by (simp add: counters_def codes_def comprehension_map_arg)
  qed
  have nomatch: "\<forall>v\<in>set codes. v \<noteq> code"
    using none by (auto simp: codes_def)
  have c2: "index_of True is_valid = None"
    if "comprehension (\<lambda>valid. OTPBase_compare code valid) codes = Inr is_valid" for is_valid
  proof -
    have "True \<notin> set ys" if "comprehension (\<lambda>valid. OTPBase_compare code valid) vs = Inr ys"
      "\<forall>v\<in>set vs. v \<noteq> code" for vs ys
      using that
      by (induction vs arbitrary: ys)
        (auto simp: OTPBase_compare_def constant_time_compare_eq split: sum.splits if_splits)
    from this [OF that nomatch] show ?thesis by (simp add: index_of_None)
  qed
  show ?thesis
    using la c1 c2
    by (auto simp: HOTP_compare_def HOTP_candidates Let_def counters_def [symmetric] core_def [symmetric]
        split: sum.splits option.splits)
qed

lemma HOTP_compare_bad_code:
  assumes la: "0 \<le> look_ahead"
    and gen: "\<And>j. 0 \<le> j \<Longrightarrow> j \<le> look_ahead \<Longrightarrow>
        OTPBase_get_otp (otp_secret self) (counter self + j) (otp_n_digits self) (otp_algorithm self) = Inr (g j)"
    and bad: "\<not> py_int10_ok code"
  shows "HOTP_compare self code look_ahead = (Inr False, self)"
proof -
  have c1: "comprehension (\<lambda>c. OTPBase_get_otp (otp_secret self) c (otp_n_digits self) (otp_algorithm self))
      (map (\<lambda>j. counter self + j) [0 .. look_ahead]) = Inr (map g [0 .. look_ahead])"
    unfolding comprehension_map_arg by (rule comprehension_map) (use gen in auto)
  have ne: "[0 .. look_ahead] \<noteq> []" using la by (simp add: upto.simps)
  have c2: "comprehension (\<lambda>valid. OTPBase_compare code valid) (map g [0 .. look_ahead]) = Inl InvalidCodeFormat"
    by (rule comprehension_first_Inl) (use ne bad in \<open>auto simp: OTPBase_compare_bad\<close>)
  show ?thesis
    using la c1 c2 by (simp add: HOTP_compare_def HOTP_candidates Let_def)
qed

lemma HOTP_compare_True_counter:
  "fst (HOTP_compare self code look_ahead) = Inr True \<Longrightarrow>
     counter self < counter (snd (HOTP_compare self code look_ahead))"
  by (auto simp: HOTP_compare_def HOTP_candidates Let_def
      split: if_splits sum.splits option.splits)

lemma HOTP_window_generated:
  assumes "0 \<le> counter self" "counter self + look_ahead < 2 ^ 64"
    and "0 \<le> otp_n_digits self" "otp_n_digits self \<le> 4300"
    and "\<And>key msg. 19 \<le> length (otp_algorithm self key msg)"
    and "0 \<le> j" "j \<le> look_ahead"
  shows "\<exists>v. OTPBase_get_otp (otp_secret self) (counter self + j) (otp_n_digits self) (otp_algorithm self) = Inr v
           \<and> py_int10_ok v"
proof (rule OTPBase_get_otp_int10_ok)
  show "0 \<le> counter self + j" using assms(1,6) by simp
  show "counter self + j < 2 ^ 64" using assms(2,7) by simp
  show "0 \<le> otp_n_digits self" "otp_n_digits self \<le> 4300" by (rule assms)+
  show "19 \<le> length (otp_algorithm self key msg)" for key msg by (rule assms(5))
qed

subsection \<open>The TOTP engine\<close>

lemma TOTP_get_otp_explicit:
  "TOTP_get_otp self r (Some t) =
     (if period self = 0 then Inl ZeroDivisionError
      else OTPBase_get_otp (otp_secret self) (t div period self) (otp_n_digits self) (otp_algorithm self),
      r)"
  by (simp add: TOTP_get_otp_def)

lemma TOTP_candidates:
  "comprehension_st (\<lambda>r i. TOTP_get_otp self r (Some (t + i * period self))) r1 xs =
     (comprehension (\<lambda>i. fst (TOTP_get_otp self q (Some (t + i * period self)))) xs, r1)"
  by (subst comprehension_st_pure) (simp_all add: TOTP_get_otp_explicit)

lemma TOTP_compare_reads:
  "snd (TOTP_compare self r code k) = (if k < 0 then r else Suc r)"
  by (auto simp: TOTP_compare_def TOTP_candidates [where q = 0] Let_def split: sum.splits)

lemma upto_nonempty: "(0::int) \<le> k \<Longrightarrow> [- k .. k] \<noteq> []"
  by (simp add: upto.simps)

lemma TOTP_compare_bad_code:
  assumes k: "0 \<le> k"
    and gen: "\<And>i. - k \<le> i \<Longrightarrow> i \<le> k \<Longrightarrow>
        fst (TOTP_get_otp self q (Some (current_timestamp self r + i * period self))) = Inr (g i)"
    and bad: "\<not> py_int10_ok code"
  shows "TOTP_compare self r code k = (Inl InvalidCodeFormat, Suc r)"
proof -
  define t where "t = current_timestamp self r"
  have c1: "comprehension (\<lambda>i. fst (TOTP_get_otp self q (Some (t + i * period self)))) [- k .. k]
      = Inr (map g [- k .. k])"
    by (rule comprehension_map) (use gen in \<open>auto simp: t_def\<close>)
  have c2: "comprehension (\<lambda>valid. OTPBase_compare code valid) (map g [- k .. k]) = Inl InvalidCodeFormat"
    by (rule comprehension_first_Inl) (use k bad in \<open>auto simp: upto_nonempty OTPBase_compare_bad\<close>)
  show ?thesis
    using k c1 c2
    by (simp add: TOTP_compare_def TOTP_candidates [where q = q] Let_def t_def [symmetric])
qed

lemma TOTP_compare_good_code:
  assumes k: "0 \<le> k"
    and gen: "\<And>i. - k \<le> i \<Longrightarrow> i \<le> k \<Longrightarrow>
        fst (TOTP_get_otp self q (Some (current_timestamp self r + i * period self))) = Inr (g i)
        \<and> py_int10_ok (g i)"
    and ok: "py_int10_ok code"
  shows "TOTP_compare self r code k = (Inr (\<exists>i\<in>{- k .. k}. g i = code), Suc r)"
proof -
  define t where "t = current_timestamp self r"
  have c1: "comprehension (\<lambda>i. fst (TOTP_get_otp self q (Some (t + i * period self)))) [- k .. k]
      = Inr (map g [- k .. k])"
    by (rule comprehension_map) (use gen in \<open>auto simp: t_def\<close>)
  have c2: "comprehension (\<lambda>valid. OTPBase_compare code valid) (map g [- k .. k])
      = Inr (map (\<lambda>v. code = v) (map g [- k .. k]))"
    by (rule comprehension_map) (use gen ok in \<open>auto simp: OTPBase_compare_ok\<close>)
  have c3: "list_ex (\<lambda>b. b) (map (\<lambda>v. code = v) (map g [- k .. k])) = (\<exists>i\<in>{- k .. k}. g i = code)"
    by (auto simp: list_ex_iff)
  show ?thesis
    using k c1 c2 c3
    by (simp add: TOTP_compare_def TOTP_candidates [where q = q] Let_def t_def [symmetric])
qed

section \<open>The claims\<close>

text \<open>
  C1, as the code has it. \<^verbatim>\<open>get_otp()\<close> with the default \<^verbatim>\<open>auto_increment\<close> returns the
  code of \<open>c\<close> and moves the counter to \<open>c + 1\<close> at once, so the \<^verbatim>\<open>compare\<close> that
  follows searches \<open>c + 1, c + 2, c + 3\<close>. On the concrete engine it returns \<^verbatim>\<open>False\<close>.
\<close>

theorem HOTP_round_trip_counterexample:
  "HOTP_get_otp (demo_hotp 0) None True = (Inr ''432104'', demo_hotp 1)
   \<and> HOTP_compare (demo_hotp 1) ''432104'' 2 = (Inr False, demo_hotp 1)"
proof -
  have 1: "HOTP_get_otp (demo_hotp 0) None True = (Inr ''432104'', demo_hotp 1)"
    by (simp add: HOTP_get_otp_current demo_hotp_fields demo_codes)
  define g :: "int \<Rightarrow> string"
    where "g = (\<lambda>j. if j = 0 then ''688032'' else if j = 1 then ''943960'' else ''199888'')"
  have cases: "j = 0 \<or> j = 1 \<or> j = 2" if "0 \<le> j" "j \<le> 2" for j :: int
    using that by auto
  have 2: "HOTP_compare (demo_hotp 1) ''432104'' 2 = (Inr False, demo_hotp 1)"
  proof (rule HOTP_compare_no_match_general [where g = g])
    show "(0::int) \<le> 2" by simp
    show "OTPBase_get_otp (otp_secret (demo_hotp 1)) (counter (demo_hotp 1) + j)
        (otp_n_digits (demo_hotp 1)) (otp_algorithm (demo_hotp 1)) = Inr (g j)"
      if "0 \<le> j" "j \<le> 2" for j
      using cases [OF that] by (auto simp: g_def demo_hotp_fields demo_codes)
    show "g j \<noteq> ''432104''" if "0 \<le> j" "j \<le> 2" for j
      by (simp add: g_def)
  qed
  from 1 2 show ?thesis by simp
qed

text \<open>
  C1, amended. For an engine whose counters \<open>c, c + 1, c + 2\<close> fit in 64 bits, with a
  digit count between 0 and 4300 and a digest of at least 19 bytes:
  \<^verbatim>\<open>compare(get_otp(auto_increment=False))\<close> returns \<^verbatim>\<open>True\<close> and leaves the counter at
  \<open>c + 1\<close>. With the default \<^verbatim>\<open>auto_increment\<close>, \<^verbatim>\<open>get_otp()\<close> returns the same code and
  leaves the counter at \<open>c + 1\<close>, and the \<^verbatim>\<open>compare\<close> that follows never both succeeds
  and leaves the counter at \<open>c + 1\<close>.
\<close>

theorem HOTP_round_trip:
  assumes "0 \<le> counter self" "counter self + 2 < 2 ^ 64"
    and "0 \<le> otp_n_digits self" "otp_n_digits self \<le> 4300"
    and "\<And>key msg. 19 \<le> length (otp_algorithm self key msg)"
  shows "\<exists>code.
           HOTP_get_otp self None False = (Inr code, self)
           \<and> HOTP_compare self code 2 = (Inr True, self\<lparr>counter := counter self + 1\<rparr>)
           \<and> HOTP_get_otp self None True = (Inr code, self\<lparr>counter := counter self + 1\<rparr>)
           \<and> \<not> (fst (HOTP_compare (self\<lparr>counter := counter self + 1\<rparr>) code 2) = Inr True
                \<and> counter (snd (HOTP_compare (self\<lparr>counter := counter self + 1\<rparr>) code 2))
                    = counter self + 1)"
proof -
  define core where "core = (\<lambda>j. OTPBase_get_otp (otp_secret self) (counter self + j) (otp_n_digits self) (otp_algorithm self))"
  define g where "g = (\<lambda>j. projr (core j))"
  have gen: "core j = Inr (g j) \<and> py_int10_ok (g j)" if "0 \<le> j" "j \<le> 2" for j
    using HOTP_window_generated [OF assms that] by (auto simp: core_def g_def)
  have c0: "OTPBase_get_otp (otp_secret self) (counter self) (otp_n_digits self) (otp_algorithm self) = Inr (g 0)"
    using gen [of 0] by (simp add: core_def)
  have 1: "HOTP_get_otp self None False = (Inr (g 0), self)"
    by (simp add: HOTP_get_otp_current c0)
  have 3: "HOTP_get_otp self None True = (Inr (g 0), self\<lparr>counter := counter self + 1\<rparr>)"
    by (simp add: HOTP_get_otp_current c0)
  have "HOTP_compare self (g 0) 2 = (Inr True, self\<lparr>counter := counter self + 0 + 1\<rparr>)"
    by (rule HOTP_compare_match [where g = g]) (use gen in \<open>auto simp: core_def\<close>)
  then have 2: "HOTP_compare self (g 0) 2 = (Inr True, self\<lparr>counter := counter self + 1\<rparr>)"
    by simp
  have 4: "\<not> (fst (HOTP_compare (self\<lparr>counter := counter self + 1\<rparr>) (g 0) 2) = Inr True
                \<and> counter (snd (HOTP_compare (self\<lparr>counter := counter self + 1\<rparr>) (g 0) 2))
                    = counter self + 1)"
    using HOTP_compare_True_counter [of "self\<lparr>counter := counter self + 1\<rparr>" "g 0" 2] by auto
  from 1 2 3 4 show ?thesis by blast
qed

theorem HOTP_round_trip_witness:
  "(0::int) \<le> 0 \<and> (0::int) + 2 < 2 ^ 64 \<and> (0::int) \<le> 6 \<and> (6::int) \<le> 4300
   \<and> HOTP_get_otp (demo_hotp 0) None False = (Inr ''432104'', demo_hotp 0)
   \<and> HOTP_compare (demo_hotp 0) ''432104'' 2 = (Inr True, demo_hotp 1)"
proof -
  obtain code where "HOTP_get_otp (demo_hotp 0) None False = (Inr code, demo_hotp 0)"
    and c: "HOTP_compare (demo_hotp 0) code 2 = (Inr True, demo_hotp 0\<lparr>counter := counter (demo_hotp 0) + 1\<rparr>)"
    using HOTP_round_trip [of "demo_hotp 0"]
    by (auto simp: demo_hotp_fields demo_digest_length)
  then have "code = ''432104''"
    by (simp add: HOTP_get_otp_current demo_hotp_fields demo_codes)
  with c show ?thesis
    by (simp add: HOTP_get_otp_current demo_hotp_fields demo_codes)
qed

text \<open>
  C2. When every candidate of the window \<open>current, \<dots>, current + look_ahead\<close> is
  generated and none of them is the submitted code, \<^verbatim>\<open>compare\<close> returns \<^verbatim>\<open>False\<close> and
  the engine, its counter included, is what it was.
\<close>

theorem HOTP_compare_no_match:
  assumes "0 \<le> look_ahead"
    and "\<forall>j\<in>{0..look_ahead}.
           \<exists>v. fst (HOTP_get_otp self (Some (counter self + j)) True) = Inr v \<and> v \<noteq> code"
  shows "HOTP_compare self code look_ahead = (Inr False, self)"
proof -
  define g where "g = (\<lambda>j. projr (OTPBase_get_otp (otp_secret self) (counter self + j)
      (otp_n_digits self) (otp_algorithm self)))"
  have gen: "OTPBase_get_otp (otp_secret self) (counter self + j) (otp_n_digits self) (otp_algorithm self) = Inr (g j)
      \<and> g j \<noteq> code" if "0 \<le> j" "j \<le> look_ahead" for j
  proof -
    from that have "j \<in> {0..look_ahead}" by simp
    with assms(2) obtain v
      where "fst (HOTP_get_otp self (Some (counter self + j)) True) = Inr v" "v \<noteq> code"
      by blast
    then show ?thesis by (simp add: HOTP_get_otp_explicit g_def)
  qed
  show ?thesis
    by (rule HOTP_compare_no_match_general [where g = g]) (use assms(1) gen in auto)
qed

theorem HOTP_compare_no_match_witness:
  "(0::int) \<le> 2
   \<and> fst (HOTP_get_otp (demo_hotp 0) (Some 0) True) = Inr ''432104''
   \<and> fst (HOTP_get_otp (demo_hotp 0) (Some 1) True) = Inr ''688032''
   \<and> fst (HOTP_get_otp (demo_hotp 0) (Some 2) True) = Inr ''943960''
   \<and> HOTP_compare (demo_hotp 0) ''199888'' 2 = (Inr False, demo_hotp 0)"
  using HOTP_compare_no_match [of 2 "demo_hotp 0" "''199888''"]
  by (simp add: upto_0_2 HOTP_get_otp_explicit demo_hotp_fields demo_codes)

text \<open>
  C3, as the code has it. The candidates are generated before the \<^verbatim>\<open>try\<close> block. An
  engine at \<open>2 ^ 64 - 1\<close> generates the code \<^verbatim>\<open>'176176'\<close> at offset 0, but the candidate
  of offset 1 is the counter \<open>2 ^ 64\<close>: \<^verbatim>\<open>compare('176176', 2)\<close> ends in the counter
  error instead of returning \<^verbatim>\<open>True\<close>.
\<close>

theorem HOTP_compare_resync_counterexample:
  "fst (HOTP_get_otp (demo_hotp 18446744073709551615) (Some (18446744073709551615 + 0)) True)
     = Inr ''176176''
   \<and> HOTP_compare (demo_hotp 18446744073709551615) ''176176'' 2
     = (Inl InvalidCounter, demo_hotp 18446744073709551615)"
  by (simp add: HOTP_compare_def HOTP_candidates HOTP_get_otp_explicit demo_hotp_fields
      upto.simps otp_eval)

text \<open>
  C3, amended. Let \<open>look_ahead \<ge> 0\<close>, let every candidate of the window
  \<open>current, \<dots>, current + look_ahead\<close> be generated (so every counter of the window fits
  in 64 bits) and let the digit count be at most 4300. If the submitted code is the
  candidate of offset \<open>i\<close> and of no smaller offset, \<^verbatim>\<open>compare\<close> returns \<^verbatim>\<open>True\<close> and
  stores \<open>current + i + 1\<close>.
\<close>

theorem HOTP_compare_resync:
  assumes "0 \<le> look_ahead"
    and "\<forall>j\<in>{0..look_ahead}. \<exists>v. fst (HOTP_get_otp self (Some (counter self + j)) True) = Inr v"
    and "otp_n_digits self \<le> 4300"
    and "0 \<le> i" "i \<le> look_ahead"
    and "fst (HOTP_get_otp self (Some (counter self + i)) True) = Inr code"
    and "\<forall>j. 0 \<le> j \<and> j < i \<longrightarrow> fst (HOTP_get_otp self (Some (counter self + j)) True) \<noteq> Inr code"
  shows "HOTP_compare self code look_ahead = (Inr True, self\<lparr>counter := counter self + i + 1\<rparr>)"
proof -
  define core where "core = (\<lambda>j. OTPBase_get_otp (otp_secret self) (counter self + j) (otp_n_digits self) (otp_algorithm self))"
  define g where "g = (\<lambda>j. projr (core j))"
  have gen: "core j = Inr (g j) \<and> py_int10_ok (g j)" if "0 \<le> j" "j \<le> look_ahead" for j
  proof -
    from that have "j \<in> {0..look_ahead}" by simp
    with assms(2) obtain v where "fst (HOTP_get_otp self (Some (counter self + j)) True) = Inr v"
      by blast
    then have v: "core j = Inr v" by (simp add: HOTP_get_otp_explicit core_def)
    then have "py_int10_ok v"
      unfolding core_def using assms(3) by (rule OTPBase_get_otp_Inr_int10_ok)
    with v show ?thesis by (simp add: g_def)
  qed
  show ?thesis
  proof (rule HOTP_compare_match [where g = g])
    show "0 \<le> look_ahead" "0 \<le> i" "i \<le> look_ahead" by (rule assms)+
    show "OTPBase_get_otp (otp_secret self) (counter self + j) (otp_n_digits self) (otp_algorithm self) = Inr (g j)
          \<and> py_int10_ok (g j)" if "0 \<le> j" "j \<le> look_ahead" for j
      using gen [OF that] by (simp add: core_def)
    show "g i = code"
      using assms(6) gen [OF assms(4,5)] by (simp add: HOTP_get_otp_explicit core_def)
    show "g j \<noteq> code" if "0 \<le> j" "j < i" for j
    proof -
      have "j \<le> look_ahead" using that assms(5) by simp
      from gen [OF that(1) this] assms(7) that show ?thesis
        by (auto simp: HOTP_get_otp_explicit core_def)
    qed
  qed
qed

theorem HOTP_compare_resync_witness:
  "(0::int) \<le> 2 \<and> (0::int) \<le> 1 \<and> (1::int) \<le> 2
   \<and> fst (HOTP_get_otp (demo_hotp 0) (Some (0 + 0)) True) = Inr ''432104''
   \<and> fst (HOTP_get_otp (demo_hotp 0) (Some (0 + 1)) True) = Inr ''688032''
   \<and> fst (HOTP_get_otp (demo_hotp 0) (Some (0 + 2)) True) = Inr ''943960''
   \<and> HOTP_compare (demo_hotp 0) ''688032'' 2 = (Inr True, demo_hotp 2)"
proof -
  have gen: "\<forall>j\<in>{0..2}. \<exists>v. fst (HOTP_get_otp (demo_hotp 0) (Some (counter (demo_hotp 0) + j)) True) = Inr v"
    by (simp add: upto_0_2 HOTP_get_otp_explicit demo_hotp_fields demo_codes)
  have c1: "fst (HOTP_get_otp (demo_hotp 0) (Some (counter (demo_hotp 0) + 1)) True) = Inr ''688032''"
    by (simp add: HOTP_get_otp_explicit demo_hotp_fields demo_codes)
  have c0: "\<forall>j. 0 \<le> j \<and> j < 1 \<longrightarrow>
      fst (HOTP_get_otp (demo_hotp 0) (Some (counter (demo_hotp 0) + j)) True) \<noteq> Inr ''688032''"
  proof (intro allI impI)
    fix j :: int assume "0 \<le> j \<and> j < 1"
    then have "j = 0" by simp
    then show "fst (HOTP_get_otp (demo_hotp 0) (Some (counter (demo_hotp 0) + j)) True) \<noteq> Inr ''688032''"
      by (simp add: HOTP_get_otp_explicit demo_hotp_fields demo_codes)
  qed
  have "HOTP_compare (demo_hotp 0) ''688032'' 2 =
      (Inr True, demo_hotp 0\<lparr>counter := counter (demo_hotp 0) + 1 + 1\<rparr>)"
    by (rule HOTP_compare_resync [where i = 1, OF _ gen _ _ _ c1 c0])
      (simp_all add: demo_hotp_fields)
  then show ?thesis
    by (simp add: HOTP_get_otp_explicit demo_hotp_fields demo_codes)
qed

text \<open>
  C4, as the code has it. \<^verbatim>\<open>get_otp()\<close> increments the counter before it calls
  \<^verbatim>\<open>_get_otp\<close>. An engine at \<open>2 ^ 64 - 1\<close> still answers and moves to \<open>2 ^ 64\<close>; the next
  call raises the counter error and the counter is \<open>2 ^ 64 + 1\<close> afterwards.
\<close>

theorem HOTP_get_otp_error_counterexample:
  "HOTP_get_otp (demo_hotp 18446744073709551615) None True
     = (Inr ''176176'', demo_hotp 18446744073709551616)
   \<and> HOTP_get_otp (demo_hotp 18446744073709551616) None True
     = (Inl InvalidCounter, demo_hotp 18446744073709551617)"
  by (simp add: HOTP_get_otp_current demo_hotp_fields otp_eval)

text \<open>
  C4, amended. \<^verbatim>\<open>HOTP.compare\<close> leaves the engine unchanged whenever it ends in an
  error; \<^verbatim>\<open>HOTP.get_otp\<close> with an explicit counter, or with \<^verbatim>\<open>auto_increment\<close> false,
  leaves it unchanged whatever its result; \<^verbatim>\<open>get_otp()\<close> with \<^verbatim>\<open>auto_increment\<close> has
  incremented the counter whatever its result, an error included.
\<close>

theorem HOTP_error_state:
  "(\<forall>e. fst (HOTP_compare self code look_ahead) = Inl e \<longrightarrow>
        snd (HOTP_compare self code look_ahead) = self)
   \<and> snd (HOTP_get_otp self (Some c) auto_increment) = self
   \<and> snd (HOTP_get_otp self None False) = self
   \<and> snd (HOTP_get_otp self None True) = self\<lparr>counter := counter self + 1\<rparr>"
proof -
  have "snd (HOTP_compare self code look_ahead) = self"
    if "fst (HOTP_compare self code look_ahead) = Inl e" for e
    by (rule HOTP_compare_unchanged) (simp add: that)
  then show ?thesis
    by (simp add: HOTP_get_otp_explicit HOTP_get_otp_current)
qed

theorem HOTP_error_state_witness:
  "fst (HOTP_compare (demo_hotp 0) ''432104'' (- 1)) = Inl InvalidArgument
   \<and> snd (HOTP_compare (demo_hotp 0) ''432104'' (- 1)) = demo_hotp 0
   \<and> snd (HOTP_get_otp (demo_hotp 18446744073709551616) None True) = demo_hotp 18446744073709551617"
  using HOTP_error_state [of "demo_hotp 0" "''432104''" "- 1"]
    HOTP_error_state [of "demo_hotp 18446744073709551616"]
  by (simp add: HOTP_compare_def demo_hotp_fields)

text \<open>
  C5, as the code has it. \<^verbatim>\<open>int('+123456', 10)\<close> returns, so \<^verbatim>\<open>_compare\<close> hands the
  two codes to the comparator and answers \<^verbatim>\<open>False\<close>, and so does \<^verbatim>\<open>TOTP.compare\<close> for
  the code \<^verbatim>\<open>'+199888'\<close>.
\<close>

theorem OTPBase_compare_format_counterexample:
  "OTPBase_compare ''+123456'' ''123456'' = Inr False
   \<and> TOTP_compare (demo_totp 120) 0 ''+199888'' 1 = (Inr False, Suc 0)"
proof -
  have 1: "OTPBase_compare ''+123456'' ''123456'' = Inr False"
    by (simp add: OTPBase_compare_def constant_time_compare_eq int10_eval)
  define g :: "int \<Rightarrow> string"
    where "g = (\<lambda>i. if i = - 1 then ''199888'' else if i = 0 then ''389176'' else ''645104'')"
  have cases: "i = - 1 \<or> i = 0 \<or> i = 1" if "- 1 \<le> i" "i \<le> 1" for i :: int
    using that by auto
  have ok: "py_int10_ok ''199888''" "py_int10_ok ''389176''" "py_int10_ok ''645104''"
    "py_int10_ok ''+199888''"
    by (simp_all add: int10_eval)
  have "TOTP_compare (demo_totp 120) 0 ''+199888'' 1
      = (Inr (\<exists>i\<in>{- 1 .. 1}. g i = ''+199888''), Suc 0)"
  proof (rule TOTP_compare_good_code [where q = 0])
    show "(0::int) \<le> 1" by simp
    show "py_int10_ok ''+199888''" by (rule ok)
    show "fst (TOTP_get_otp (demo_totp 120) 0
          (Some (current_timestamp (demo_totp 120) 0 + i * period (demo_totp 120))))
        = Inr (g i) \<and> py_int10_ok (g i)" if "- 1 \<le> i" "i \<le> 1" for i
      using cases [OF that] ok
      by (auto simp: g_def TOTP_get_otp_explicit demo_totp_fields demo_codes)
  qed
  moreover have "\<not> (\<exists>i\<in>{- 1 .. 1}. g i = ''+199888'')"
    by (simp add: upto_m1_1 g_def)
  ultimately have 2: "TOTP_compare (demo_totp 120) 0 ''+199888'' 1 = (Inr False, Suc 0)"
    by simp
  from 1 2 show ?thesis by simp
qed

text \<open>
  C5, amended. For codes of code points below 256: \<^verbatim>\<open>_compare\<close> raises the format error
  exactly when \<^verbatim>\<open>int(code, 10)\<close> rejects one of the two codes. It does so for the
  empty code and for every code holding a character other than a decimal digit, an
  underscore, a sign or white space. \<^verbatim>\<open>TOTP.compare\<close>, with a non-negative window
  whose candidates are generated, raises the format error for a code that \<^verbatim>\<open>int\<close>
  rejects.
\<close>

theorem OTPBase_compare_format:
  "(OTPBase_compare a b = Inl InvalidCodeFormat) = (\<not> py_int10_ok a \<or> \<not> py_int10_ok b)
   \<and> (a = [] \<or> b = [] \<longrightarrow> OTPBase_compare a b = Inl InvalidCodeFormat)
   \<and> ((\<exists>c\<in>set a \<union> set b.
          \<not> py_isdigit c \<and> \<not> py_isspace c \<and> c \<noteq> CHR ''_'' \<and> c \<noteq> CHR ''+'' \<and> c \<noteq> CHR ''-'')
        \<longrightarrow> OTPBase_compare a b = Inl InvalidCodeFormat)
   \<and> (0 \<le> k
        \<and> (\<forall>i\<in>{- k .. k}. \<exists>v. fst (TOTP_get_otp tself (Suc reads)
              (Some (current_timestamp tself reads + i * period tself))) = Inr v)
        \<and> \<not> py_int10_ok code
        \<longrightarrow> TOTP_compare tself reads code k = (Inl InvalidCodeFormat, Suc reads))"
proof -
  have 1: "(OTPBase_compare a b = Inl InvalidCodeFormat) = (\<not> py_int10_ok a \<or> \<not> py_int10_ok b)"
    by (simp add: OTPBase_compare_def)
  have 0: "OTPBase_compare a b = Inl InvalidCodeFormat" if "a = [] \<or> b = []"
    using that 1 int10_ok_nonempty by auto
  have 2: "OTPBase_compare a b = Inl InvalidCodeFormat"
    if "\<exists>c\<in>set a \<union> set b.
          \<not> py_isdigit c \<and> \<not> py_isspace c \<and> c \<noteq> CHR ''_'' \<and> c \<noteq> CHR ''+'' \<and> c \<noteq> CHR ''-''"
  proof -
    from that have "\<not> py_int10_ok a \<or> \<not> py_int10_ok b"
      using int10_ok_chars [of a] int10_ok_chars [of b] by blast
    with 1 show ?thesis by simp
  qed
  have 3: "TOTP_compare tself reads code k = (Inl InvalidCodeFormat, Suc reads)"
    if "0 \<le> k"
      "\<forall>i\<in>{- k .. k}. \<exists>v. fst (TOTP_get_otp tself (Suc reads)
          (Some (current_timestamp tself reads + i * period tself))) = Inr v"
      "\<not> py_int10_ok code"
  proof (rule TOTP_compare_bad_code [where q = "Suc reads"
        and g = "\<lambda>i. projr (fst (TOTP_get_otp tself (Suc reads)
          (Some (current_timestamp tself reads + i * period tself))))"])
    show "0 \<le> k" "\<not> py_int10_ok code" by (rule that)+
    fix i assume "- k \<le> i" "i \<le> k"
    then have "i \<in> {- k .. k}" by simp
    with that(2) obtain v where "fst (TOTP_get_otp tself (Suc reads)
          (Some (current_timestamp tself reads + i * period tself))) = Inr v" by blast
    then show "fst (TOTP_get_otp tself (Suc reads)
          (Some (current_timestamp tself reads + i * period tself))) =
        Inr (projr (fst (TOTP_get_otp tself (Suc reads)
          (Some (current_timestamp tself reads + i * period tself)))))" by simp
  qed
  from 0 1 2 3 show ?thesis by blast
qed

theorem OTPBase_compare_format_witness:
  "OTPBase_compare ''abc123'' ''123456'' = Inl InvalidCodeFormat
   \<and> OTPBase_compare ''123456'' ''12 456'' = Inl InvalidCodeFormat
   \<and> OTPBase_compare ''123456'' [] = Inl InvalidCodeFormat
   \<and> TOTP_compare (demo_totp 120) 0 ''abc123'' 1 = (Inl InvalidCodeFormat, Suc 0)"
proof -
  have bad: "\<not> py_int10_ok ''abc123''" "\<not> py_int10_ok ''12 456''"
    by (simp_all add: int10_eval)
  have a: "\<exists>c\<in>set ''abc123'' \<union> set ''123456''.
      \<not> py_isdigit c \<and> \<not> py_isspace c \<and> c \<noteq> CHR ''_'' \<and> c \<noteq> CHR ''+'' \<and> c \<noteq> CHR ''-''"
    by (simp add: py_isdigit_def py_isspace_def)
  have 1: "OTPBase_compare ''abc123'' ''123456'' = Inl InvalidCodeFormat"
    using OTPBase_compare_format [of "''abc123''" "''123456''"] a by blast
  have 2: "OTPBase_compare ''123456'' ''12 456'' = Inl InvalidCodeFormat"
    using OTPBase_compare_format [of "''123456''" "''12 456''"] bad by blast
  have 3: "OTPBase_compare ''123456'' [] = Inl InvalidCodeFormat"
    using OTPBase_compare_format [of "''123456''" "[]"] by blast
  have t: "\<forall>i\<in>{- 1 .. 1}. \<exists>v. fst (TOTP_get_otp (demo_totp 120) (Suc 0)
              (Some (current_timestamp (demo_totp 120) 0 + i * period (demo_totp 120)))) = Inr v"
    by (simp add: upto_m1_1 TOTP_get_otp_explicit demo_totp_fields demo_codes)
  have 4: "TOTP_compare (demo_totp 120) 0 ''abc123'' 1 = (Inl InvalidCodeFormat, Suc 0)"
    using OTPBase_compare_format [where k = 1 and tself = "demo_totp 120" and reads = 0
        and code = "''abc123''"] t bad by simp
  from 1 2 3 4 show ?thesis by simp
qed

text \<open>
  C6. \<^verbatim>\<open>_get_otp\<close> ends in the counter error exactly for the counters that do not fit
  in an unsigned 64-bit integer, whatever the secret, the digit count and the digest:
  its own guard refuses a bit length above 64, the byte codec refuses a negative
  counter, and both stand before the call of the digest. A counter that fits is never
  refused with this error.
\<close>

theorem OTPBase_get_otp_counter_bound:
  "(OTPBase_get_otp secret counter_int n_digits algorithm = Inl InvalidCounter)
     = (counter_int < 0 \<or> 2 ^ 64 \<le> counter_int)"
  by (rule OTPBase_get_otp_guard)

text \<open>
  C7, as the code has it. Under the secret of RFC 4226 and HMAC-SHA1 the steps 57766335
  and 57766336 have the same code \<^verbatim>\<open>'251166'\<close>. At \<open>now = 1732990110\<close> with period 30
  the current step is 57766337, so the code generated at \<open>now - 2 * period\<close> is the code
  of \<open>now - period\<close>, and \<^verbatim>\<open>compare(code, 1)\<close> accepts it.
\<close>

theorem TOTP_compare_window_counterexample:
  "fst (TOTP_get_otp rfc_totp 0 (Some (1732990110 - 2 * 30))) = Inr ''251166''
   \<and> TOTP_compare rfc_totp 0 ''251166'' 1 = (Inr True, Suc 0)"
proof -
  have 1: "fst (TOTP_get_otp rfc_totp 0 (Some (1732990110 - 2 * 30))) = Inr ''251166''"
    by (simp add: TOTP_get_otp_explicit rfc_totp_fields rfc_codes)
  define g :: "int \<Rightarrow> string"
    where "g = (\<lambda>i. if i = - 1 then ''251166'' else if i = 0 then ''463144'' else ''934927'')"
  have cases: "i = - 1 \<or> i = 0 \<or> i = 1" if "- 1 \<le> i" "i \<le> 1" for i :: int
    using that by auto
  have ok: "py_int10_ok ''251166''" "py_int10_ok ''463144''" "py_int10_ok ''934927''"
    by (simp_all add: int10_eval)
  have "TOTP_compare rfc_totp 0 ''251166'' 1 = (Inr (\<exists>i\<in>{- 1 .. 1}. g i = ''251166''), Suc 0)"
  proof (rule TOTP_compare_good_code [where q = 0])
    show "(0::int) \<le> 1" by simp
    show "py_int10_ok ''251166''" by (rule ok)
    show "fst (TOTP_get_otp rfc_totp 0 (Some (current_timestamp rfc_totp 0 + i * period rfc_totp)))
        = Inr (g i) \<and> py_int10_ok (g i)" if "- 1 \<le> i" "i \<le> 1" for i
      using cases [OF that] ok
      by (auto simp: g_def TOTP_get_otp_explicit rfc_totp_fields rfc_codes)
  qed
  moreover have "\<exists>i\<in>{- 1 .. 1}. g i = ''251166''"
    by (rule bexI [where x = "- 1"]) (simp_all add: g_def)
  ultimately have 2: "TOTP_compare rfc_totp 0 ''251166'' 1 = (Inr True, Suc 0)" by simp
  from 1 2 show ?thesis by simp
qed

text \<open>
  C7, amended. For a time source that returns integers: let \<open>k \<ge> 0\<close>, let every
  candidate of the window be generated (so the period is not zero and the steps
  \<open>step - k, \<dots>, step + k\<close> around the current step lie between 0 and \<open>2 ^ 64 - 1\<close>) and
  let the digit count be at most 4300. \<^verbatim>\<open>TOTP.compare(code, k)\<close> reads the time source
  once. It raises the format error when \<^verbatim>\<open>int(code, 10)\<close> does and otherwise returns
  whether the code is a candidate of the window; so it returns \<^verbatim>\<open>True\<close> exactly when
  the code is the code of one of the steps \<open>step - k, \<dots>, step + k\<close>, which are the codes
  \<^verbatim>\<open>get_otp\<close> gives at the times \<open>now + i * period\<close> for \<open>i\<close> from \<open>- k\<close> to \<open>k\<close>. With
  \<open>k = 1\<close> the codes of \<open>now - period\<close> and \<open>now + period\<close> are accepted, and the code of
  \<open>now - 2 * period\<close> is rejected exactly when it differs from the three codes of the
  window.
\<close>

theorem TOTP_compare_window:
  assumes "0 \<le> k"
    and "\<forall>i\<in>{- k .. k}.
           \<exists>v. fst (TOTP_get_otp self q (Some (current_timestamp self reads + i * period self))) = Inr v"
    and "otp_n_digits self \<le> 4300"
  shows "snd (TOTP_compare self reads code k) = Suc reads
    \<and> fst (TOTP_compare self reads code k) =
          (if py_int10_ok code
           then Inr (\<exists>step\<in>{current_timestamp self reads div period self - k ..
                              current_timestamp self reads div period self + k}.
                       OTPBase_get_otp (otp_secret self) step (otp_n_digits self) (otp_algorithm self) = Inr code)
           else Inl InvalidCodeFormat)
    \<and> (fst (TOTP_compare self reads code k) = Inr True) =
          (\<exists>step\<in>{current_timestamp self reads div period self - k ..
                    current_timestamp self reads div period self + k}.
             OTPBase_get_otp (otp_secret self) step (otp_n_digits self) (otp_algorithm self) = Inr code)
    \<and> (fst (TOTP_compare self reads code k) = Inr True) =
          (\<exists>i\<in>{- k .. k}.
             fst (TOTP_get_otp self q (Some (current_timestamp self reads + i * period self))) = Inr code)"
proof -
  define now where "now = current_timestamp self reads"
  define core where "core = (\<lambda>step. OTPBase_get_otp (otp_secret self) step (otp_n_digits self) (otp_algorithm self))"
  define g where "g = (\<lambda>i. projr (core (now div period self + i)))"
  have p: "period self \<noteq> 0"
  proof
    assume z: "period self = 0"
    from assms(1) have "0 \<in> {- k .. k}" by simp
    with assms(2) obtain v where "fst (TOTP_get_otp self q (Some (now + 0 * period self))) = Inr v"
      unfolding now_def by blast
    with z show False by (simp add: TOTP_get_otp_explicit)
  qed
  have step: "(now + i * period self) div period self = now div period self + i" for i
    using p by simp
  have gen: "fst (TOTP_get_otp self q' (Some (now + i * period self))) = Inr (g i)
      \<and> core (now div period self + i) = Inr (g i) \<and> py_int10_ok (g i)"
    if "- k \<le> i" "i \<le> k" for i q'
  proof -
    from that have "i \<in> {- k .. k}" by simp
    with assms(2) obtain v where "fst (TOTP_get_otp self q (Some (now + i * period self))) = Inr v"
      unfolding now_def by blast
    then have v: "core (now div period self + i) = Inr v"
      using p by (simp add: TOTP_get_otp_explicit step core_def)
    then have "py_int10_ok v"
      unfolding core_def using assms(3) by (rule OTPBase_get_otp_Inr_int10_ok)
    with v p show ?thesis
      by (simp add: TOTP_get_otp_explicit step core_def g_def)
  qed
  have steps: "(\<exists>step\<in>{now div period self - k .. now div period self + k}. core step = Inr code)
      = (\<exists>i\<in>{- k .. k}. g i = code)"
  proof
    assume "\<exists>step\<in>{now div period self - k .. now div period self + k}. core step = Inr code"
    then obtain step where s: "now div period self - k \<le> step" "step \<le> now div period self + k"
      "core step = Inr code" by auto
    define i where "i = step - now div period self"
    have "- k \<le> i" "i \<le> k" using s by (simp_all add: i_def)
    moreover from gen [OF this] s(3) have "g i = code" by (simp add: i_def)
    ultimately show "\<exists>i\<in>{- k .. k}. g i = code" by auto
  next
    assume "\<exists>i\<in>{- k .. k}. g i = code"
    then obtain i where i: "- k \<le> i" "i \<le> k" "g i = code" by auto
    from gen [OF i(1,2)] i(3) have "core (now div period self + i) = Inr code" by simp
    moreover have "now div period self + i \<in> {now div period self - k .. now div period self + k}"
      using i by simp
    ultimately show "\<exists>step\<in>{now div period self - k .. now div period self + k}. core step = Inr code"
      by blast
  qed
  have times: "(\<exists>i\<in>{- k .. k}. fst (TOTP_get_otp self q (Some (now + i * period self))) = Inr code)
      = (\<exists>i\<in>{- k .. k}. g i = code)"
    using gen by auto
  show ?thesis
  proof (cases "py_int10_ok code")
    case True
    have "TOTP_compare self reads code k = (Inr (\<exists>i\<in>{- k .. k}. g i = code), Suc reads)"
      by (rule TOTP_compare_good_code [where q = 0])
        (use assms(1) gen True in \<open>auto simp: now_def\<close>)
    then show ?thesis
      using True steps times by (simp add: now_def core_def)
  next
    case False
    have "TOTP_compare self reads code k = (Inl InvalidCodeFormat, Suc reads)"
      by (rule TOTP_compare_bad_code [where q = 0 and g = g])
        (use assms(1) gen False in \<open>auto simp: now_def\<close>)
    moreover have "\<not> (\<exists>i\<in>{- k .. k}. g i = code)"
      using gen False by auto
    ultimately show ?thesis
      using False steps times by (simp add: now_def core_def)
  qed
qed

theorem TOTP_compare_window_witness:
  "(0::int) \<le> 1
   \<and> fst (TOTP_get_otp (demo_totp 120) 0 (Some (120 - 30))) = Inr ''199888''
   \<and> TOTP_compare (demo_totp 120) 0 ''199888'' 1 = (Inr True, Suc 0)
   \<and> fst (TOTP_get_otp (demo_totp 120) 0 (Some 120)) = Inr ''389176''
   \<and> fst (TOTP_get_otp (demo_totp 120) 0 (Some (120 + 30))) = Inr ''645104''
   \<and> TOTP_compare (demo_totp 120) 0 ''645104'' 1 = (Inr True, Suc 0)
   \<and> fst (TOTP_get_otp (demo_totp 120) 0 (Some (120 - 2 * 30))) = Inr ''943960''
   \<and> TOTP_compare (demo_totp 120) 0 ''943960'' 1 = (Inr False, Suc 0)"
proof -
  have ok: "py_int10_ok ''199888''" "py_int10_ok ''645104''" "py_int10_ok ''943960''"
    by (simp_all add: int10_eval)
  have gen: "\<forall>i\<in>{- 1 .. 1}. \<exists>v. fst (TOTP_get_otp (demo_totp 120) 0
              (Some (current_timestamp (demo_totp 120) 0 + i * period (demo_totp 120)))) = Inr v"
    by (simp add: upto_m1_1 TOTP_get_otp_explicit demo_totp_fields demo_codes)
  have w: "snd (TOTP_compare (demo_totp 120) 0 code 1) = Suc 0
      \<and> fst (TOTP_compare (demo_totp 120) 0 code 1) =
          (if py_int10_ok code
           then Inr (\<exists>step\<in>{3 .. 5}. OTPBase_get_otp [1, 2, 3] step 6 demo_digest = Inr code)
           else Inl InvalidCodeFormat)" for code
    using TOTP_compare_window [where k = 1 and self = "demo_totp 120" and reads = 0
        and code = code and q = 0] gen
    by (simp add: demo_totp_fields)
  have "TOTP_compare (demo_totp 120) 0 ''199888'' 1 = (Inr True, Suc 0)"
    "TOTP_compare (demo_totp 120) 0 ''645104'' 1 = (Inr True, Suc 0)"
    "TOTP_compare (demo_totp 120) 0 ''943960'' 1 = (Inr False, Suc 0)"
    using w [of "''199888''"] w [of "''645104''"] w [of "''943960''"]
    by (simp_all add: ok upto_3_5 demo_codes prod_eq_iff)
  then show ?thesis
    by (simp add: TOTP_get_otp_explicit demo_totp_fields demo_codes)
qed

text \<open>
  C8. \<^verbatim>\<open>constant_time_compare(a, b)\<close> is true exactly when \<open>a\<close> and \<open>b\<close> have the same
  length and the same item at every position, that is when \<open>a = b\<close>. With different
  lengths the result is false, and the result is the conjunction of the length test
  with the equality of every zipped pair.
\<close>

theorem constant_time_compare_correct:
  "constant_time_compare a b = (a = b)
   \<and> constant_time_compare a b = (length a = length b \<and> (\<forall>i < length a. a ! i = b ! i))
   \<and> (length a \<noteq> length b \<longrightarrow> \<not> constant_time_compare a b)
   \<and> constant_time_compare a b = (length a = length b \<and> list_all (\<lambda>(x, y). x = y) (zip a b))"
proof -
  have 1: "constant_time_compare a b = (a = b)"
    by (rule constant_time_compare_eq)
  have 2: "(a = b) = (length a = length b \<and> (\<forall>i < length a. a ! i = b ! i))"
    by (auto simp: list_eq_iff_nth_eq)
  have 3: "(a = b) = (length a = length b \<and> list_all (\<lambda>(x, y). x = y) (zip a b))"
    by (auto simp: list_eq_iff_zip_eq list_all_iff)
  show ?thesis
    using 1 2 3 by auto
qed

theorem constant_time_compare_correct_witness:
  "constant_time_compare ''123456'' ''123456''
   \<and> \<not> constant_time_compare ''123456'' ''654321''
   \<and> length ''123456'' \<noteq> length ''12345'' \<and> \<not> constant_time_compare ''123456'' ''12345''"
  using constant_time_compare_correct [of "''123456''" "''123456''"]
    constant_time_compare_correct [of "''123456''" "''654321''"]
    constant_time_compare_correct [of "''123456''" "''12345''"]
  by simp

text \<open>
  C9. For a counter that fits in 64 bits, a positive digit count and a digest long
  enough for the dynamic truncation (19 bytes suffice; the supported hashes give 20 or
  more), \<^verbatim>\<open>_get_otp\<close> returns a string of exactly \<open>n_digits\<close> decimal digits: the
  decimal form of the truncated 31-bit value, padded with zeros on the left when it is
  shorter and cut to its last \<open>n_digits\<close> characters when it is longer.
\<close>

theorem OTPBase_get_otp_code_shape:
  assumes "0 \<le> counter_int" "counter_int < 2 ^ 64"
    and "0 < n_digits"
    and "\<And>key msg. 19 \<le> length (algorithm key msg)"
  shows "\<exists>as_int code. as_int < 2 ^ 31
           \<and> OTPBase_get_otp secret counter_int n_digits algorithm = Inr code
           \<and> length code = nat n_digits
           \<and> list_all py_isdigit code
           \<and> code = (if length (decimal as_int) \<le> nat n_digits
                      then replicate (nat n_digits - length (decimal as_int)) (CHR ''0'') @ decimal as_int
                      else drop (length (decimal as_int) - nat n_digits) (decimal as_int))"
proof -
  have n0: "0 \<le> n_digits" using assms(3) by simp
  obtain as_int where a: "as_int < 2 ^ 31"
    and r: "OTPBase_get_otp secret counter_int n_digits algorithm =
      Inr (py_suffix (nat n_digits) (zero_pad (nat n_digits) (decimal as_int)))"
    using OTPBase_get_otp_value [where algorithm = algorithm and secret = secret, OF assms(1,2) n0 assms(4)]
    by blast
  define code where "code = py_suffix (nat n_digits) (zero_pad (nat n_digits) (decimal as_int))"
  have pos: "0 < nat n_digits" using assms(3) by simp
  have len: "length code = nat n_digits"
    unfolding code_def using pos by (rule py_suffix_zero_pad_length)
  have dig: "list_all py_isdigit code"
    unfolding code_def by (rule py_suffix_zero_pad_digits) (rule decimal_digits)
  have shape: "code = (if length (decimal as_int) \<le> nat n_digits
                      then replicate (nat n_digits - length (decimal as_int)) (CHR ''0'') @ decimal as_int
                      else drop (length (decimal as_int) - nat n_digits) (decimal as_int))"
    using pos by (simp add: code_def py_suffix_def zero_pad_def)
  from a r len dig shape show ?thesis
    unfolding code_def [symmetric] by blast
qed

theorem OTPBase_get_otp_code_shape_witness:
  "(0::int) \<le> 5 \<and> (5::int) < 2 ^ 64 \<and> (0::int) < 6
   \<and> OTPBase_get_otp [1, 2, 3] 5 6 demo_digest = Inr ''645104''
   \<and> length ''645104'' = nat 6 \<and> list_all py_isdigit ''645104''"
  using OTPBase_get_otp_code_shape [of 5 6 demo_digest "[1, 2, 3]", OF _ _ _ demo_digest_length]
  by (simp add: demo_codes py_isdigit_def)

text \<open>
  C10. \<^verbatim>\<open>int('', 10)\<close> raises, so \<^verbatim>\<open>_compare\<close> raises the format error as soon as one
  of its codes is empty. \<^verbatim>\<open>TOTP.compare\<close>, with a non-negative window whose
  candidates are generated, passes the error on for an empty code; \<^verbatim>\<open>HOTP.compare\<close>,
  in the same situation, returns \<^verbatim>\<open>False\<close> and leaves the engine unchanged.
\<close>

theorem empty_code_compare:
  "OTPBase_compare [] b = Inl InvalidCodeFormat
   \<and> OTPBase_compare a [] = Inl InvalidCodeFormat
   \<and> (0 \<le> k
        \<and> (\<forall>i\<in>{- k .. k}. \<exists>v. fst (TOTP_get_otp tself (Suc reads)
              (Some (current_timestamp tself reads + i * period tself))) = Inr v)
        \<longrightarrow> TOTP_compare tself reads [] k = (Inl InvalidCodeFormat, Suc reads))
   \<and> (0 \<le> look_ahead
        \<and> (\<forall>j\<in>{0 .. look_ahead}. \<exists>v. fst (HOTP_get_otp hself (Some (counter hself + j)) True) = Inr v)
        \<longrightarrow> HOTP_compare hself [] look_ahead = (Inr False, hself))"
proof -
  have 1: "OTPBase_compare [] b = Inl InvalidCodeFormat" "OTPBase_compare a [] = Inl InvalidCodeFormat"
    by (simp_all add: OTPBase_compare_def int10_ok_nonempty)
  have 3: "TOTP_compare tself reads [] k = (Inl InvalidCodeFormat, Suc reads)"
    if "0 \<le> k"
      "\<forall>i\<in>{- k .. k}. \<exists>v. fst (TOTP_get_otp tself (Suc reads)
          (Some (current_timestamp tself reads + i * period tself))) = Inr v"
  proof (rule TOTP_compare_bad_code [where q = "Suc reads"
        and g = "\<lambda>i. projr (fst (TOTP_get_otp tself (Suc reads)
          (Some (current_timestamp tself reads + i * period tself))))"])
    show "0 \<le> k" "\<not> py_int10_ok []" by (rule that int10_ok_nonempty)+
    fix i assume "- k \<le> i" "i \<le> k"
    then have "i \<in> {- k .. k}" by simp
    with that(2) obtain v where "fst (TOTP_get_otp tself (Suc reads)
          (Some (current_timestamp tself reads + i * period tself))) = Inr v" by blast
    then show "fst (TOTP_get_otp tself (Suc reads)
          (Some (current_timestamp tself reads + i * period tself))) =
        Inr (projr (fst (TOTP_get_otp tself (Suc reads)
          (Some (current_timestamp tself reads + i * period tself)))))" by simp
  qed
  have 4: "HOTP_compare hself [] look_ahead = (Inr False, hself)"
    if "0 \<le> look_ahead"
      "\<forall>j\<in>{0 .. look_ahead}. \<exists>v. fst (HOTP_get_otp hself (Some (counter hself + j)) True) = Inr v"
  proof (rule HOTP_compare_bad_code [where
        g = "\<lambda>j. projr (fst (HOTP_get_otp hself (Some (counter hself + j)) True))"])
    show "0 \<le> look_ahead" "\<not> py_int10_ok []" by (rule that int10_ok_nonempty)+
    fix j assume "0 \<le> j" "j \<le> look_ahead"
    then have "j \<in> {0 .. look_ahead}" by simp
    with that(2) obtain v where "fst (HOTP_get_otp hself (Some (counter hself + j)) True) = Inr v"
      by blast
    then show "OTPBase_get_otp (otp_secret hself) (counter hself + j) (otp_n_digits hself) (otp_algorithm hself)
        = Inr (projr (fst (HOTP_get_otp hself (Some (counter hself + j)) True)))"
      by (simp add: HOTP_get_otp_explicit)
  qed
  from 1 3 4 show ?thesis by blast
qed

theorem empty_code_compare_witness:
  "OTPBase_compare [] ''123456'' = Inl InvalidCodeFormat
   \<and> TOTP_compare (demo_totp 120) 0 [] 1 = (Inl InvalidCodeFormat, Suc 0)
   \<and> HOTP_compare (demo_hotp 0) [] 2 = (Inr False, demo_hotp 0)"
proof -
  have t: "\<forall>i\<in>{- 1 .. 1}. \<exists>v. fst (TOTP_get_otp (demo_totp 120) (Suc 0)
              (Some (current_timestamp (demo_totp 120) 0 + i * period (demo_totp 120)))) = Inr v"
    by (simp add: upto_m1_1 TOTP_get_otp_explicit demo_totp_fields demo_codes)
  have h: "\<forall>j\<in>{0 .. 2}. \<exists>v. fst (HOTP_get_otp (demo_hotp 0) (Some (counter (demo_hotp 0) + j)) True) = Inr v"
    by (simp add: upto_0_2 HOTP_get_otp_explicit demo_hotp_fields demo_codes)
  show ?thesis
    using empty_code_compare [where k = 1 and tself = "demo_totp 120" and reads = 0
        and look_ahead = 2 and hself = "demo_hotp 0" and b = "''123456''"] t h
    by simp
qed

end
